theory Spec2Isabelle
  imports Main "HOL-Library.Word"
begin

unbundle bit_operations_syntax

section \<open>Strings\<close>

text \<open>
  Python strings are modelled as HOL strings. \<open>str.lower\<close> and \<open>str.upper\<close> are modelled
  on the ASCII letters; every other character is left as it is. Text outside ASCII is
  outside this model.
\<close>

definition ascii_uppercase :: string where
  "ascii_uppercase = ''ABCDEFGHIJKLMNOPQRSTUVWXYZ''"

definition ascii_lowercase :: string where
  "ascii_lowercase = ''abcdefghijklmnopqrstuvwxyz''"

definition lower_char :: "char \<Rightarrow> char" where
  "lower_char c = (case map_of (zip ascii_uppercase ascii_lowercase) c of None \<Rightarrow> c | Some d \<Rightarrow> d)"

definition upper_char :: "char \<Rightarrow> char" where
  "upper_char c = (case map_of (zip ascii_lowercase ascii_uppercase) c of None \<Rightarrow> c | Some d \<Rightarrow> d)"

definition lower :: "string \<Rightarrow> string" where
  "lower s = map lower_char s"

definition upper :: "string \<Rightarrow> string" where
  "upper s = map upper_char s"

definition LF :: char where
  "LF = CHR 0x0A"

definition QUOTE :: char where
  "QUOTE = CHR 0x27"

text \<open>\<open>sep.join(xs)\<close>\<close>

fun join :: "string \<Rightarrow> string list \<Rightarrow> string" where
  "join sep [] = []"
| "join sep [x] = x"
| "join sep (x # y # ys) = x @ sep @ join sep (y # ys)"

section \<open>Base32 validation\<close>

text \<open>
  \<open>BASE32_REGEX = re.compile(r'^[A-Z2-7]+=*$')\<close>, used with \<open>match\<close>. The three functions
  below are the three parts of the pattern, each tried at the current position the way
  the backtracking matcher does: \<open>$\<close> holds at the end of the string and also just
  before a line feed that is the last character; \<open>=*\<close> takes one more \<open>=\<close> or hands
  over to \<open>$\<close>; \<open>[A-Z2-7]+\<close> takes one character of the class and then either repeats
  or hands over to \<open>=*$\<close>.
\<close>

definition base32_class :: string where
  "base32_class = ''ABCDEFGHIJKLMNOPQRSTUVWXYZ234567''"

definition is_base32_char :: "char \<Rightarrow> bool" where
  "is_base32_char c = (c \<in> set base32_class)"

definition match_end :: "string \<Rightarrow> bool" where
  "match_end s = (s = [] \<or> s = [LF])"

fun match_padding :: "string \<Rightarrow> bool" where
  "match_padding [] = match_end []"
| "match_padding (c # cs) = ((c = CHR ''='' \<and> match_padding cs) \<or> match_end (c # cs))"

fun match_body :: "string \<Rightarrow> bool" where
  "match_body [] = False"
| "match_body (c # cs) = (is_base32_char c \<and> (match_body cs \<or> match_padding cs))"

definition is_valid_base32 :: "string \<Rightarrow> bool" where
  "is_valid_base32 secret_key = match_body secret_key"

text \<open>
  The contract of \<open>isValidBase32\<close> in the words of the specification, for comparison:
  once the trailing run of \<open>=\<close> is taken off, every character is in \<open>[A-Z2-7]\<close>.
\<close>

definition strip_padding :: "string \<Rightarrow> string" where
  "strip_padding s = rev (dropWhile (\<lambda>c. c = CHR ''='') (rev s))"

definition isValidBase32_spec :: "string \<Rightarrow> bool" where
  "isValidBase32_spec s = list_all is_base32_char (strip_padding s)"

section \<open>The table \<open>otp_secrets\<close>\<close>

text \<open>
  \<open>CREATE TABLE otp_secrets (name TEXT PRIMARY KEY, secret_key TEXT NOT NULL)\<close>: the rows
  in the order of insertion. The four statements the handlers execute are modelled on
  it. The primary key makes an \<open>INSERT\<close> of a name that is present raise
  \<open>sqlite3.IntegrityError\<close> and change nothing. Failures of the storage itself are not
  modelled.
\<close>

type_synonym row = "string \<times> string"

type_synonym table = "row list"

datatype error = IntegrityError | DecodeError | InvalidSecretError

text \<open>\<open>INSERT INTO otp_secrets (name, secret_key) VALUES (?, ?)\<close>\<close>

definition sql_insert :: "table \<Rightarrow> string \<Rightarrow> string \<Rightarrow> error + table" where
  "sql_insert tbl name secret_key =
     (if name \<in> fst ` set tbl then Inl IntegrityError else Inr (tbl @ [(name, secret_key)]))"

text \<open>\<open>SELECT secret_key FROM otp_secrets WHERE name = ?\<close> followed by \<open>fetchone()\<close>\<close>

definition sql_select_secret :: "table \<Rightarrow> string \<Rightarrow> string option" where
  "sql_select_secret tbl name = map_of tbl name"

text \<open>\<open>DELETE FROM otp_secrets WHERE name = ?\<close>: \<open>rowcount\<close> and the table left\<close>

definition sql_delete :: "table \<Rightarrow> string \<Rightarrow> nat \<times> table" where
  "sql_delete tbl name =
     (length (filter (\<lambda>r. fst r = name) tbl), filter (\<lambda>r. fst r \<noteq> name) tbl)"

text \<open>
  \<open>SELECT name FROM otp_secrets\<close> followed by \<open>fetchall()\<close>. The statement has no
  \<open>ORDER BY\<close>, so the order of the names is the store's choice; the rows are given here
  in the order of insertion, and nothing below depends on the order.
\<close>

definition sql_select_names :: "table \<Rightarrow> string list" where
  "sql_select_names tbl = map fst tbl"

section \<open>The one-time password engine\<close>

text \<open>
  The handler obtains the code from \<open>pyotp.TOTP(secret).now()\<close>. That call, and the
  hash, the keyed hash and the Base32 decoder under it, are library code outside the
  source tree. This section models them from the specification (sections 4.1 and 4.2);
  what the specification only names (SHA-1, HMAC, the Base32 alphabet) follows the RFC
  that defines it.
\<close>

type_synonym byte = "8 word"

type_synonym u32 = "32 word"

definition be_bytes32 :: "u32 \<Rightarrow> byte list" where
  "be_bytes32 w = [ucast (drop_bit 24 w), ucast (drop_bit 16 w), ucast (drop_bit 8 w), ucast w]"

definition be_word32 :: "byte list \<Rightarrow> u32" where
  "be_word32 bs = foldl (\<lambda>acc b. push_bit 8 acc OR ucast b) 0 bs"

text \<open>An integer as 8 bytes, most significant first (the low 64 bits of it).\<close>

definition be_bytes64 :: "nat \<Rightarrow> byte list" where
  "be_bytes64 n =
     (let w = (of_nat n :: 64 word) in map (\<lambda>i. ucast (drop_bit (8 * (7 - i)) w)) [0..<8])"

fun chunks :: "nat \<Rightarrow> 'a list \<Rightarrow> 'a list list" where
  "chunks n [] = []"
| "chunks n (x # xs) = (if n = 0 then [] else take n (x # xs) # chunks n (drop n (x # xs)))"

subsection \<open>SHA-1 and HMAC\<close>

text \<open>
  Modelled from the spec: \<open>HMAC-SHA1(key, message)\<close>, a 20-byte digest. The source takes
  it from the libraries behind \<open>pyotp\<close>; here SHA-1 is written out as in RFC 3174 and
  HMAC as in RFC 2104 (block size 64).
\<close>

definition rotl :: "nat \<Rightarrow> u32 \<Rightarrow> u32" where
  "rotl n w = push_bit n w OR drop_bit (32 - n) w"

definition sha1_pad :: "byte list \<Rightarrow> byte list" where
  "sha1_pad m =
     m @ [0x80] @ replicate ((119 - length m mod 64) mod 64) 0 @ be_bytes64 (8 * length m)"

definition sha1_f :: "nat \<Rightarrow> u32 \<Rightarrow> u32 \<Rightarrow> u32 \<Rightarrow> u32" where
  "sha1_f t b c d =
     (if t < 20 then (b AND c) OR (NOT b AND d)
      else if t < 40 then b XOR c XOR d
      else if t < 60 then (b AND c) OR (b AND d) OR (c AND d)
      else b XOR c XOR d)"

definition sha1_k :: "nat \<Rightarrow> u32" where
  "sha1_k t =
     (if t < 20 then 0x5A827999
      else if t < 40 then 0x6ED9EBA1
      else if t < 60 then 0x8F1BBCDC
      else 0xCA62C1D6)"

fun sha1_schedule :: "nat \<Rightarrow> u32 list \<Rightarrow> u32 list" where
  "sha1_schedule 0 w = w"
| "sha1_schedule (Suc n) w =
     sha1_schedule n
       (w @ [rotl 1 (w ! (length w - 3) XOR w ! (length w - 8) XOR
                     w ! (length w - 14) XOR w ! (length w - 16))])"

type_synonym sha1_state = "u32 \<times> u32 \<times> u32 \<times> u32 \<times> u32"

fun sha1_round :: "sha1_state \<Rightarrow> nat \<times> u32 \<Rightarrow> sha1_state" where
  "sha1_round (a, b, c, d, e) (t, w) =
     (rotl 5 a + sha1_f t b c d + e + w + sha1_k t, a, rotl 30 b, c, d)"

fun sha1_block :: "sha1_state \<Rightarrow> byte list \<Rightarrow> sha1_state" where
  "sha1_block (h0, h1, h2, h3, h4) blk =
     (case foldl sha1_round (h0, h1, h2, h3, h4)
             (zip [0..<80] (sha1_schedule 64 (map be_word32 (chunks 4 blk)))) of
        (a, b, c, d, e) \<Rightarrow> (h0 + a, h1 + b, h2 + c, h3 + d, h4 + e))"

definition sha1 :: "byte list \<Rightarrow> byte list" where
  "sha1 m =
     (case foldl sha1_block (0x67452301, 0xEFCDAB89, 0x98BADCFE, 0x10325476, 0xC3D2E1F0)
             (chunks 64 (sha1_pad m)) of
        (h0, h1, h2, h3, h4) \<Rightarrow> concat (map be_bytes32 [h0, h1, h2, h3, h4]))"

definition hmac_sha1 :: "byte list \<Rightarrow> byte list \<Rightarrow> byte list" where
  "hmac_sha1 key msg =
     (let k0 = (if length key > 64 then sha1 key else key);
          k = k0 @ replicate (64 - length k0) 0
      in sha1 (map (\<lambda>b. b XOR 0x5C) k @ sha1 (map (\<lambda>b. b XOR 0x36) k @ msg)))"

subsection \<open>Base32 decoding\<close>

text \<open>
  Modelled from the spec: \<open>decode(s)\<close> of the Base32 codec (section 4.1), which the
  source leaves to the library. It fails if the input is not valid Base32 (a character
  before the trailing padding is outside the alphabet) or has an inconsistent padding
  length (the length is not a multiple of 8, or the number of \<open>=\<close> is not one that a
  whole number of bytes leaves: 0, 1, 3, 4 or 6); otherwise it is the standard decoding
  of RFC 4648: 5 bits per character, most significant first, cut into bytes, the bits
  left over dropped.
\<close>

fun index_of :: "'a \<Rightarrow> 'a list \<Rightarrow> nat" where
  "index_of x [] = 0"
| "index_of x (y # ys) = (if x = y then 0 else Suc (index_of x ys))"

definition bits_of :: "nat \<Rightarrow> nat \<Rightarrow> bool list" where
  "bits_of w n = map (\<lambda>i. bit n (w - 1 - i)) [0..<w]"

definition byte_of_bits :: "bool list \<Rightarrow> byte" where
  "byte_of_bits bs = foldl (\<lambda>acc b. push_bit 1 acc OR (if b then 1 else 0)) 0 bs"

definition decode :: "string \<Rightarrow> error + byte list" where
  "decode s =
     (let body = strip_padding s;
          padchars = length s - length body
      in if \<not> list_all is_base32_char body then Inl DecodeError
         else if length s mod 8 \<noteq> 0 \<or> padchars \<notin> {0, 1, 3, 4, 6} then Inl DecodeError
         else Inr (map byte_of_bits
                     (filter (\<lambda>g. length g = 8)
                        (chunks 8 (concat (map (\<lambda>c. bits_of 5 (index_of c base32_class)) body))))))"

subsection \<open>Code generation\<close>

text \<open>\<open>str(n)\<close> for a natural number, padding with zeros on the left, and reading back.\<close>

definition digit_char :: "nat \<Rightarrow> char" where
  "digit_char d = ''0123456789'' ! d"

fun str_nat :: "nat \<Rightarrow> string" where
  "str_nat n = (if n < 10 then [digit_char n] else str_nat (n div 10) @ [digit_char (n mod 10)])"

definition zfill :: "nat \<Rightarrow> string \<Rightarrow> string" where
  "zfill w s = replicate (w - length s) (CHR ''0'') @ s"

definition is_digit :: "char \<Rightarrow> bool" where
  "is_digit c = (c \<in> set ''0123456789'')"

definition nat_of_digits :: "string \<Rightarrow> nat" where
  "nat_of_digits s = foldl (\<lambda>acc c. 10 * acc + index_of c ''0123456789'') 0 s"

text \<open>
  Modelled from the spec: \<open>generate(secretBytes, unixTimeSeconds)\<close> of the engine
  (section 4.2), which the source leaves to \<open>pyotp\<close>. The counter is
  \<open>floor(unixTimeSeconds / 30)\<close> as an 8-byte big-endian integer; the digest is
  HMAC-SHA1 with the secret as key and the counter bytes as message; the offset is
  \<open>digest[19] & 0x0F\<close>; the 4 bytes \<open>digest[offset..offset+4]\<close> with the top bit masked
  (\<open>& 0x7FFFFFFF\<close>) are a 31-bit integer; the result is that integer mod \<open>10^6\<close>,
  zero-padded to 6 digits. It fails with \<open>InvalidSecretError\<close> on an empty secret.
\<close>

definition counter_bytes :: "nat \<Rightarrow> byte list" where
  "counter_bytes unix_time = be_bytes64 (unix_time div 30)"

definition truncate31 :: "byte list \<Rightarrow> nat" where
  "truncate31 digest =
     (let offset = unat (digest ! 19 AND 0x0F)
      in unat (be_word32 (take 4 (drop offset digest)) AND 0x7FFFFFFF))"

definition generate :: "byte list \<Rightarrow> nat \<Rightarrow> error + string" where
  "generate secret_bytes unix_time =
     (if secret_bytes = [] then Inl InvalidSecretError
      else Inr (zfill 6 (str_nat
             (truncate31 (hmac_sha1 secret_bytes (counter_bytes unix_time)) mod 10 ^ 6))))"

text \<open>
  Modelled from the spec: \<open>pyotp.TOTP(secret).now()\<close> with the clock reading \<open>now\<close>, the
  library call of \<open>getotp\<close>: the stored text is decoded and the engine is called with
  the current time (section 4.4). The library call takes the secret in either case and
  completes a missing padding to a multiple of 8 characters before it decodes; the
  specification is silent on both.
\<close>

definition byte_secret :: "string \<Rightarrow> error + byte list" where
  "byte_secret secret =
     decode (upper secret @ replicate ((8 - length secret mod 8) mod 8) (CHR ''=''))"

definition totp_now :: "string \<Rightarrow> nat \<Rightarrow> error + string" where
  "totp_now secret now =
     (case byte_secret secret of
        Inl e \<Rightarrow> Inl e
      | Inr secret_bytes \<Rightarrow> generate secret_bytes now)"

section \<open>The command handlers\<close>

text \<open>
  A handler replies with a text (\<open>send_with_delay\<close>, whose pause is not modelled) or an
  exception leaves it. The handlers take the table, the arguments of the command
  (\<open>context.args\<close>) and, for \<open>getotp\<close>, the reading of the clock in seconds since the
  epoch; those that write return the table they leave.
\<close>

datatype outcome = Reply string | Raise error

definition not_found_text :: "string \<Rightarrow> string" where
  "not_found_text name =
     ''Service '' @ [QUOTE] @ name @ [QUOTE] @
     '' not found. Use /listcodes to see available services.''"

definition start :: outcome where
  "start = Reply
     (''Welcome to the Real-Time OTP Bot!'' @ [LF, LF] @
      ''Available commands:'' @ [LF] @
      ''/start - Show this message'' @ [LF] @
      ''/getotp <name> - Get OTP code for a service'' @ [LF] @
      ''/addcode <name> <secret_key> - Add a new OTP code'' @ [LF] @
      ''/deletecode <name> - Delete an OTP code'' @ [LF] @
      ''/listcodes - List all stored OTP codes'')"

definition getotp :: "table \<Rightarrow> string list \<Rightarrow> nat \<Rightarrow> outcome" where
  "getotp tbl args now =
     (if args = [] then Reply ''Usage: /getotp <name>''
      else
        let name = lower (hd args) in
        case sql_select_secret tbl name of
          None \<Rightarrow> Reply (not_found_text name)
        | Some secret \<Rightarrow>
            (case totp_now secret now of
               Inl e \<Rightarrow> Raise e
             | Inr otp_code \<Rightarrow>
                 Reply (''Your real-time OTP code for '' @ name @ '' is: '' @ otp_code)))"

definition addcode :: "table \<Rightarrow> string list \<Rightarrow> outcome \<times> table" where
  "addcode tbl args =
     (if length args < 2 then (Reply ''Usage: /addcode <name> <secret_key>'', tbl)
      else
        let name = lower (args ! 0);
            secret_key = upper (args ! 1) in
        if \<not> is_valid_base32 secret_key
        then (Reply ''Invalid secret_key. It must be a valid Base32 string (A-Z, 2-7, and = only).'',
              tbl)
        else
          case sql_insert tbl name secret_key of
            Inr tbl' \<Rightarrow>
              (Reply (''OTP code for '' @ [QUOTE] @ name @ [QUOTE] @ '' added successfully.''), tbl')
          | Inl IntegrityError \<Rightarrow>
              (Reply (''Service '' @ [QUOTE] @ name @ [QUOTE] @
                      '' already exists. Use /deletecode to remove it first.''), tbl)
          | Inl e \<Rightarrow> (Raise e, tbl))"

definition deletecode :: "table \<Rightarrow> string list \<Rightarrow> outcome \<times> table" where
  "deletecode tbl args =
     (if args = [] then (Reply ''Usage: /deletecode <name>'', tbl)
      else
        let name = lower (hd args) in
        case sql_delete tbl name of
          (rowcount, tbl') \<Rightarrow>
            if rowcount = 0 then (Reply (not_found_text name), tbl')
            else (Reply (''OTP code for '' @ [QUOTE] @ name @ [QUOTE] @ '' deleted successfully.''),
                  tbl'))"

definition listcodes :: "table \<Rightarrow> outcome" where
  "listcodes tbl =
     (let results = sql_select_names tbl in
      if results = [] then Reply ''No OTP codes stored. Use /addcode to add one.''
      else Reply (''Stored OTP codes:'' @ [LF] @ join [LF] (map (\<lambda>name. ''- '' @ name) results)))"

text \<open>The handlers registered in \<open>main\<close>, and the tables that commands lead to from the
  empty table the first start creates.\<close>

datatype command = Start | GetOtp | AddCode | DeleteCode | ListCodes

fun handle :: "command \<Rightarrow> table \<Rightarrow> string list \<Rightarrow> nat \<Rightarrow> outcome \<times> table" where
  "handle Start tbl args now = (start, tbl)"
| "handle GetOtp tbl args now = (getotp tbl args now, tbl)"
| "handle AddCode tbl args now = addcode tbl args"
| "handle DeleteCode tbl args now = deletecode tbl args"
| "handle ListCodes tbl args now = (listcodes tbl, tbl)"

inductive reachable :: "table \<Rightarrow> bool" where
  created: "reachable []"
| command: "reachable tbl \<Longrightarrow> reachable (snd (handle cmd tbl args now))"

section \<open>Case mapping\<close>

lemma case_len: "length ascii_uppercase = length ascii_lowercase"
  by (simp add: ascii_uppercase_def ascii_lowercase_def)

lemma case_disjoint: "set ascii_lowercase \<inter> set ascii_uppercase = {}"
  by (simp add: ascii_uppercase_def ascii_lowercase_def)

lemma lower_char_fixed: "c \<notin> set ascii_uppercase \<Longrightarrow> lower_char c = c"
  using case_len by (simp add: lower_char_def map_of_zip_is_None [THEN iffD2])

lemma lower_char_not_upper: "lower_char c \<notin> set ascii_uppercase"
proof (cases "map_of (zip ascii_uppercase ascii_lowercase) c")
  case None
  then have "c \<notin> set ascii_uppercase" using case_len by (simp add: map_of_zip_is_None)
  with None show ?thesis by (simp add: lower_char_def)
next
  case (Some d)
  then have "(c, d) \<in> set (zip ascii_uppercase ascii_lowercase)" by (rule map_of_SomeD)
  then have "d \<in> set ascii_lowercase" by (rule set_zip_rightD)
  with case_disjoint have "d \<notin> set ascii_uppercase" by blast
  with Some show ?thesis by (simp add: lower_char_def)
qed

lemma lower_char_idem: "lower_char (lower_char c) = lower_char c"
  by (rule lower_char_fixed) (rule lower_char_not_upper)

lemma lower_idem: "lower (lower s) = lower s"
  by (simp add: lower_def lower_char_idem)

lemma upper_char_fixed: "c \<notin> set ascii_lowercase \<Longrightarrow> upper_char c = c"
  using case_len by (simp add: upper_char_def map_of_zip_is_None [THEN iffD2])

lemma base32_not_lowercase: "is_base32_char c \<Longrightarrow> c \<notin> set ascii_lowercase"
  by (auto simp add: is_base32_char_def base32_class_def ascii_lowercase_def)

lemma not_base32_pad: "\<not> is_base32_char (CHR ''='')"
  by (simp add: is_base32_char_def base32_class_def)

lemma upper_char_base32: "is_base32_char c \<Longrightarrow> upper_char c = c"
  by (simp add: upper_char_fixed base32_not_lowercase)

lemma upper_char_pad: "upper_char (CHR ''='') = CHR ''=''"
  by (simp add: upper_char_fixed ascii_lowercase_def)

lemma upper_char_LF: "upper_char LF = LF"
  by (simp add: upper_char_fixed ascii_lowercase_def LF_def)

section \<open>What the validation accepts\<close>

lemma match_padding_iff:
  "match_padding s \<longleftrightarrow> (\<exists>n. s = replicate n (CHR ''='') \<or> s = replicate n (CHR ''='') @ [LF])"
proof (induction s)
  case Nil
  show ?case by (simp add: match_end_def)
next
  case (Cons c cs)
  show ?case
  proof
    assume "match_padding (c # cs)"
    then consider "c = CHR ''=''" "match_padding cs" | "match_end (c # cs)" by auto
    then show "\<exists>n. c # cs = replicate n (CHR ''='') \<or> c # cs = replicate n (CHR ''='') @ [LF]"
    proof cases
      case 1
      with Cons.IH obtain n where "cs = replicate n (CHR ''='') \<or> cs = replicate n (CHR ''='') @ [LF]"
        by blast
      with 1 have "c # cs = replicate (Suc n) (CHR ''='') \<or> c # cs = replicate (Suc n) (CHR ''='') @ [LF]"
        by auto
      then show ?thesis by blast
    next
      case 2
      then have "c # cs = replicate 0 (CHR ''='') @ [LF]" by (simp add: match_end_def)
      then show ?thesis by blast
    qed
  next
    assume "\<exists>n. c # cs = replicate n (CHR ''='') \<or> c # cs = replicate n (CHR ''='') @ [LF]"
    then obtain n where n: "c # cs = replicate n (CHR ''='') \<or> c # cs = replicate n (CHR ''='') @ [LF]"
      by blast
    show "match_padding (c # cs)"
    proof (cases n)
      case 0
      with n show ?thesis by (simp add: match_end_def)
    next
      case (Suc m)
      with n have "c = CHR ''=''" and "cs = replicate m (CHR ''='') \<or> cs = replicate m (CHR ''='') @ [LF]"
        by auto
      with Cons.IH show ?thesis by auto
    qed
  qed
qed

lemma match_body_iff:
  "match_body s \<longleftrightarrow>
     (\<exists>body rest. body \<noteq> [] \<and> list_all is_base32_char body \<and> s = body @ rest \<and> match_padding rest)"
proof (induction s)
  case Nil
  show ?case by simp
next
  case (Cons c cs)
  show ?case
  proof
    assume m: "match_body (c # cs)"
    then have c: "is_base32_char c" by simp
    from m consider "match_body cs" | "match_padding cs" by auto
    then show "\<exists>body rest. body \<noteq> [] \<and> list_all is_base32_char body \<and> c # cs = body @ rest \<and> match_padding rest"
    proof cases
      case 1
      with Cons.IH obtain body rest where
        "body \<noteq> []" "list_all is_base32_char body" "cs = body @ rest" "match_padding rest"
        by blast
      with c have "c # body \<noteq> [] \<and> list_all is_base32_char (c # body) \<and> c # cs = (c # body) @ rest \<and> match_padding rest"
        by simp
      then show ?thesis by blast
    next
      case 2
      with c have "[c] \<noteq> [] \<and> list_all is_base32_char [c] \<and> c # cs = [c] @ cs \<and> match_padding cs"
        by simp
      then show ?thesis by blast
    qed
  next
    assume "\<exists>body rest. body \<noteq> [] \<and> list_all is_base32_char body \<and> c # cs = body @ rest \<and> match_padding rest"
    then obtain body rest where b: "body \<noteq> []" "list_all is_base32_char body" "c # cs = body @ rest" "match_padding rest"
      by blast
    then obtain b bs where body: "body = b # bs" by (cases body) auto
    with b have c: "c = b" "is_base32_char c" "cs = bs @ rest" "list_all is_base32_char bs" by auto
    show "match_body (c # cs)"
    proof (cases bs)
      case Nil
      with c b show ?thesis by simp
    next
      case (Cons b' bs')
      with c b have "match_body cs" using Cons.IH by (metis list.distinct(1))
      with c show ?thesis by simp
    qed
  qed
qed

lemma strip_padding_split:
  "s = strip_padding s @ replicate (length s - length (strip_padding s)) (CHR ''='')"
proof -
  let ?P = "\<lambda>c. c = CHR ''=''"
  have "rev s = takeWhile ?P (rev s) @ dropWhile ?P (rev s)" by simp
  then have "s = rev (dropWhile ?P (rev s)) @ rev (takeWhile ?P (rev s))"
    by (metis rev_append rev_rev_ident)
  moreover have "takeWhile ?P (rev s) = replicate (length (takeWhile ?P (rev s))) (CHR ''='')"
    by (rule replicate_length_same [symmetric]) (auto dest: set_takeWhileD)
  moreover have "length (takeWhile ?P (rev s)) = length s - length (strip_padding s)"
    by (metis (no_types, lifting) add_diff_cancel_right' length_append length_rev strip_padding_def takeWhile_dropWhile_id)
  ultimately show ?thesis by (simp add: strip_padding_def)
qed

lemma strip_padding_append:
  "body = [] \<or> last body \<noteq> CHR ''='' \<Longrightarrow> strip_padding (body @ replicate n (CHR ''='')) = body"
proof -
  assume a: "body = [] \<or> last body \<noteq> CHR ''=''"
  have "dropWhile (\<lambda>c. c = CHR ''='') (replicate n (CHR ''='') @ rev body) = dropWhile (\<lambda>c. c = CHR ''='') (rev body)"
    by (simp add: dropWhile_append)
  also have "\<dots> = rev body" using a by (cases "rev body") (auto simp: hd_rev last_rev)
  finally show ?thesis by (simp add: strip_padding_def)
qed

lemma is_valid_base32_shape:
  "is_valid_base32 s \<longleftrightarrow>
     (\<exists>body n. body \<noteq> [] \<and> list_all is_base32_char body \<and>
        (s = body @ replicate n (CHR ''='') \<or> s = body @ replicate n (CHR ''='') @ [LF]))"
  unfolding is_valid_base32_def match_body_iff match_padding_iff by blast

text \<open>
  C2 (as amended). For every string that does not end in a line feed, \<open>is_valid_base32\<close>
  holds if and only if, once the trailing run of \<open>=\<close> is taken off, at least one
  character is left and every character left is in \<open>[A-Z2-7]\<close>. The pattern asks for
  one character of the class at least (\<open>+\<close>), so the empty string and the strings made
  only of \<open>=\<close> are rejected.
\<close>

theorem is_valid_base32_iff:
  assumes "s = [] \<or> last s \<noteq> LF"
  shows "is_valid_base32 s \<longleftrightarrow> strip_padding s \<noteq> [] \<and> isValidBase32_spec s"
proof
  assume "is_valid_base32 s"
  then obtain body n where b: "body \<noteq> []" "list_all is_base32_char body"
    and s: "s = body @ replicate n (CHR ''='') \<or> s = body @ replicate n (CHR ''='') @ [LF]"
    unfolding is_valid_base32_shape by blast
  from s assms have s': "s = body @ replicate n (CHR ''='')" by auto
  from b have "last body \<noteq> CHR ''=''"
    using not_base32_pad by (metis last_in_set list_all_iff)
  then have "strip_padding s = body" using s' strip_padding_append by blast
  with b show "strip_padding s \<noteq> [] \<and> isValidBase32_spec s" by (simp add: isValidBase32_spec_def)
next
  assume a: "strip_padding s \<noteq> [] \<and> isValidBase32_spec s"
  have "s = strip_padding s @ replicate (length s - length (strip_padding s)) (CHR ''='')"
    by (rule strip_padding_split)
  with a show "is_valid_base32 s"
    unfolding is_valid_base32_shape isValidBase32_spec_def by blast
qed

theorem is_valid_base32_iff_witness:
  "(''MZXW6YQ='' = [] \<or> last ''MZXW6YQ='' \<noteq> LF) \<and>
   (is_valid_base32 ''MZXW6YQ='' \<longleftrightarrow> strip_padding ''MZXW6YQ='' \<noteq> [] \<and> isValidBase32_spec ''MZXW6YQ='')"
  using is_valid_base32_iff [of "''MZXW6YQ=''"] by (simp add: LF_def)

text \<open>
  C2 as stated fails at the empty string: the contract in the words of the specification
  accepts it, the pattern does not.
\<close>

theorem is_valid_base32_empty_counterexample:
  "\<not> (is_valid_base32 '''' \<longleftrightarrow> isValidBase32_spec '''')"
  by (simp add: is_valid_base32_def isValidBase32_spec_def strip_padding_def)

section \<open>The statements and the handlers\<close>

lemma valid_chars:
  "is_valid_base32 s \<Longrightarrow> c \<in> set s \<Longrightarrow> is_base32_char c \<or> c = CHR ''='' \<or> c = LF"
  unfolding is_valid_base32_shape by (auto simp add: list_all_iff)

lemma valid_upper: "is_valid_base32 s \<Longrightarrow> upper s = s"
  unfolding upper_def
  by (rule map_idI) (use valid_chars upper_char_base32 upper_char_pad upper_char_LF in metis)

lemma sql_select_secret_None: "sql_select_secret tbl name = None \<longleftrightarrow> name \<notin> fst ` set tbl"
  by (simp add: sql_select_secret_def map_of_eq_None_iff)

lemma sql_select_secret_row: "sql_select_secret tbl name = Some secret \<Longrightarrow> (name, secret) \<in> set tbl"
  by (simp add: sql_select_secret_def map_of_SomeD)

lemma sql_select_secret_distinct:
  "distinct (map fst tbl) \<Longrightarrow> (name, secret) \<in> set tbl \<Longrightarrow> sql_select_secret tbl name = Some secret"
  by (simp add: sql_select_secret_def)

lemma sql_select_secret_appended:
  "name \<notin> fst ` set tbl \<Longrightarrow> sql_select_secret (tbl @ [(name, secret)]) name = Some secret"
  by (simp add: sql_select_secret_def map_add_def map_of_eq_None_iff [THEN iffD2])

lemma sql_delete_absent: "name \<notin> fst ` set tbl \<Longrightarrow> sql_delete tbl name = (0, tbl)"
proof -
  assume "name \<notin> fst ` set tbl"
  then have "\<forall>r \<in> set tbl. fst r \<noteq> name" by auto
  then show ?thesis by (simp add: sql_delete_def filter_empty_conv filter_id_conv)
qed

lemma sql_delete_present: "name \<in> fst ` set tbl \<Longrightarrow> fst (sql_delete tbl name) \<noteq> 0"
  by (auto simp add: sql_delete_def filter_empty_conv)

lemma sql_delete_gone: "name \<notin> fst ` set (snd (sql_delete tbl name))"
  by (auto simp add: sql_delete_def)

lemma sql_delete_rows: "set (snd (sql_delete tbl name)) \<subseteq> set tbl"
  by (auto simp add: sql_delete_def)

lemma sql_delete_distinct:
  "distinct (map fst tbl) \<Longrightarrow> distinct (map fst (snd (sql_delete tbl name)))"
  by (simp add: sql_delete_def distinct_map_filter)

lemma count_one:
  "distinct (map fst tbl) \<Longrightarrow> name \<in> fst ` set tbl \<Longrightarrow>
     length (filter (\<lambda>r. fst r = name) tbl) = 1"
proof (induction tbl)
  case Nil
  then show ?case by simp
next
  case (Cons r tbl)
  show ?case
  proof (cases "fst r = name")
    case True
    with Cons.prems have "name \<notin> fst ` set tbl" by auto
    then have "filter (\<lambda>r. fst r = name) tbl = []" by (auto simp add: filter_empty_conv)
    with True show ?thesis by simp
  next
    case False
    with Cons show ?thesis by auto
  qed
qed

lemma getotp_absent:
  "lower name \<notin> fst ` set tbl \<Longrightarrow>
     getotp tbl (name # rest) now = Reply (not_found_text (lower name))"
  by (simp add: getotp_def Let_def sql_select_secret_None [THEN iffD2])

lemma getotp_present:
  "sql_select_secret tbl (lower name) = Some secret \<Longrightarrow>
     getotp tbl (name # rest) now =
       (case totp_now secret now of
          Inl e \<Rightarrow> Raise e
        | Inr otp_code \<Rightarrow>
            Reply (''Your real-time OTP code for '' @ lower name @ '' is: '' @ otp_code))"
  by (simp add: getotp_def Let_def)

lemma getotp_present_found:
  "sql_select_secret tbl (lower name) = Some secret \<Longrightarrow>
     getotp tbl (name # rest) now \<noteq> Reply (not_found_text n)"
  by (simp add: getotp_present not_found_text_def split: sum.split)

lemma addcode_invalid:
  "\<not> is_valid_base32 (upper secret_key) \<Longrightarrow>
     addcode tbl (name # secret_key # rest) =
       (Reply ''Invalid secret_key. It must be a valid Base32 string (A-Z, 2-7, and = only).'', tbl)"
  by (simp add: addcode_def Let_def)

lemma addcode_present:
  "is_valid_base32 (upper secret_key) \<Longrightarrow> lower name \<in> fst ` set tbl \<Longrightarrow>
     addcode tbl (name # secret_key # rest) =
       (Reply (''Service '' @ [QUOTE] @ lower name @ [QUOTE] @
               '' already exists. Use /deletecode to remove it first.''), tbl)"
  by (simp add: addcode_def sql_insert_def Let_def)

lemma addcode_absent:
  "is_valid_base32 (upper secret_key) \<Longrightarrow> lower name \<notin> fst ` set tbl \<Longrightarrow>
     addcode tbl (name # secret_key # rest) =
       (Reply (''OTP code for '' @ [QUOTE] @ lower name @ [QUOTE] @ '' added successfully.''),
        tbl @ [(lower name, upper secret_key)])"
  by (simp add: addcode_def sql_insert_def Let_def)

lemma addcode_cases:
  "snd (addcode tbl args) = tbl \<or>
   (2 \<le> length args \<and> is_valid_base32 (upper (args ! 1)) \<and> lower (args ! 0) \<notin> fst ` set tbl \<and>
    snd (addcode tbl args) = tbl @ [(lower (args ! 0), upper (args ! 1))])"
  by (simp add: addcode_def sql_insert_def Let_def)

lemma deletecode_rows: "set (snd (deletecode tbl args)) \<subseteq> set tbl"
  using sql_delete_rows [of tbl "lower (hd args)"]
  by (cases "sql_delete tbl (lower (hd args))") (auto simp add: deletecode_def Let_def)

lemma deletecode_distinct:
  "distinct (map fst tbl) \<Longrightarrow> distinct (map fst (snd (deletecode tbl args)))"
  using sql_delete_distinct [of tbl "lower (hd args)"]
  by (cases "sql_delete tbl (lower (hd args))") (auto simp add: deletecode_def Let_def)

lemma handle_new_row:
  assumes "r \<in> set (snd (handle cmd tbl args now))" and "r \<notin> set tbl"
  shows "cmd = AddCode \<and> 2 \<le> length args \<and> r = (lower (args ! 0), upper (args ! 1)) \<and>
         is_valid_base32 (upper (args ! 1))"
proof (cases cmd)
  case AddCode
  with assms addcode_cases [of tbl args] show ?thesis by auto
next
  case DeleteCode
  with assms deletecode_rows [of tbl args] show ?thesis by auto
qed (use assms in auto)

lemma handle_distinct:
  assumes "distinct (map fst tbl)"
  shows "distinct (map fst (snd (handle cmd tbl args now)))"
proof (cases cmd)
  case AddCode
  with assms addcode_cases [of tbl args] show ?thesis by auto
next
  case DeleteCode
  with assms deletecode_distinct [of tbl args] show ?thesis by simp
qed (use assms in auto)

lemma reachable_distinct: "reachable tbl \<Longrightarrow> distinct (map fst tbl)"
  by (induction rule: reachable.induct) (simp_all add: handle_distinct)

lemma reachable_row_valid: "reachable tbl \<Longrightarrow> r \<in> set tbl \<Longrightarrow> is_valid_base32 (snd r)"
proof (induction arbitrary: r rule: reachable.induct)
  case created
  then show ?case by simp
next
  case (command tbl cmd args now)
  show ?case
  proof (cases "r \<in> set tbl")
    case True
    then show ?thesis by (rule command.IH)
  next
    case False
    with command.prems show ?thesis
      using handle_new_row [of r cmd tbl args now] by auto
  qed
qed

lemma getotp_first_arg:
  "lower a = lower b \<Longrightarrow> getotp tbl (a # rest) now = getotp tbl (b # rest) now"
  unfolding getotp_def by simp

lemma addcode_first_arg:
  "lower a = lower b \<Longrightarrow> addcode tbl (a # rest) = addcode tbl (b # rest)"
  unfolding addcode_def by simp

lemma deletecode_first_arg:
  "lower a = lower b \<Longrightarrow> deletecode tbl (a # rest) = deletecode tbl (b # rest)"
  unfolding deletecode_def by simp

lemma handle_first_arg:
  assumes "lower a = lower b"
  shows "handle cmd tbl (a # rest) now = handle cmd tbl (b # rest) now"
  using getotp_first_arg [OF assms, of tbl rest now] addcode_first_arg [OF assms, of tbl rest]
    deletecode_first_arg [OF assms, of tbl rest]
  by (cases cmd) simp_all

section \<open>Concrete inputs\<close>

lemma lower_GitHub: "lower ''GitHub'' = ''github''"
  by (simp add: lower_def lower_char_def ascii_uppercase_def ascii_lowercase_def)

lemma lower_GITHUB: "lower ''GITHUB'' = ''github''"
  by (simp add: lower_def lower_char_def ascii_uppercase_def ascii_lowercase_def)

lemma lower_github: "lower ''github'' = ''github''"
  by (simp add: lower_def lower_char_def ascii_uppercase_def ascii_lowercase_def)

lemma lower_svc: "lower ''svc'' = ''svc''"
  by (simp add: lower_def lower_char_def ascii_uppercase_def ascii_lowercase_def)

lemma upper_example_key: "upper ''jbswy3dpehpk3pxp'' = ''JBSWY3DPEHPK3PXP''"
  by (simp add: upper_def upper_char_def ascii_uppercase_def ascii_lowercase_def)

lemma upper_example_key_idem: "upper ''JBSWY3DPEHPK3PXP'' = ''JBSWY3DPEHPK3PXP''"
  by (simp add: upper_def upper_char_def ascii_uppercase_def ascii_lowercase_def)

lemma valid_example_key: "is_valid_base32 ''JBSWY3DPEHPK3PXP''"
  by (simp add: is_valid_base32_def is_base32_char_def base32_class_def match_end_def)

lemma upper_bad_key: "upper ''invalid-key!'' = ''INVALID-KEY!''"
  by (simp add: upper_def upper_char_def ascii_uppercase_def ascii_lowercase_def)

lemma invalid_bad_key: "\<not> is_valid_base32 ''INVALID-KEY!''"
  by (simp add: is_valid_base32_def is_base32_char_def base32_class_def match_end_def LF_def)

lemma reachable_example: "reachable [(''github'', ''JBSWY3DPEHPK3PXP'')]"
proof -
  have "snd (handle AddCode [] [''GitHub'', ''jbswy3dpehpk3pxp''] 0) = [(''github'', ''JBSWY3DPEHPK3PXP'')]"
    by (simp add: addcode_absent upper_example_key valid_example_key lower_GitHub)
  then show ?thesis
    using reachable.command [OF reachable.created, of AddCode "[''GitHub'', ''jbswy3dpehpk3pxp'']" 0]
    by simp
qed

section \<open>The store\<close>

text \<open>
  C3. In a table that respects the primary key, when a row with the lowercased name is
  present, \<open>addcode\<close> with that name (in any case) and a key that passes validation
  replies that the service already exists, and leaves the table as it was: it still
  holds exactly one row for that name, with the secret it had.
\<close>

theorem addcode_duplicate:
  assumes "distinct (map fst tbl)"
    and "lower name \<in> fst ` set tbl"
    and "is_valid_base32 (upper secret_key)"
  shows "addcode tbl (name # secret_key # rest) =
           (Reply (''Service '' @ [QUOTE] @ lower name @ [QUOTE] @
                   '' already exists. Use /deletecode to remove it first.''), tbl) \<and>
         length (filter (\<lambda>r. fst r = lower name) (snd (addcode tbl (name # secret_key # rest)))) = 1 \<and>
         sql_select_secret (snd (addcode tbl (name # secret_key # rest))) (lower name) =
           sql_select_secret tbl (lower name)"
  using assms by (simp add: addcode_present count_one)

theorem addcode_duplicate_witness:
  "distinct (map fst [(''github'', ''JBSWY3DPEHPK3PXP'')]) \<and>
   lower ''GitHub'' \<in> fst ` set [(''github'', ''JBSWY3DPEHPK3PXP'')] \<and>
   is_valid_base32 (upper ''jbswy3dpehpk3pxp'') \<and>
   addcode [(''github'', ''JBSWY3DPEHPK3PXP'')] [''GitHub'', ''jbswy3dpehpk3pxp''] =
     (Reply (''Service '' @ [QUOTE] @ ''github'' @ [QUOTE] @
             '' already exists. Use /deletecode to remove it first.''),
      [(''github'', ''JBSWY3DPEHPK3PXP'')]) \<and>
   length (filter (\<lambda>r. fst r = ''github'')
     (snd (addcode [(''github'', ''JBSWY3DPEHPK3PXP'')] [''GitHub'', ''jbswy3dpehpk3pxp'']))) = 1"
  using addcode_duplicate [of "[(''github'', ''JBSWY3DPEHPK3PXP'')]" "''GitHub''" "''jbswy3dpehpk3pxp''" "[]"]
  by (simp add: lower_GitHub upper_example_key valid_example_key)









text \<open>
  C7 (as amended). \<open>addcode\<close> with a key that fails validation replies with the
  invalid-format text and leaves the table as it was, so that \<open>getotp\<close> of that name
  answers afterwards what it answered before: not found when the name was not in the
  table.
\<close>

theorem addcode_invalid_no_write:
  assumes "\<not> is_valid_base32 (upper secret_key)"
  shows "addcode tbl (name # secret_key # rest) =
           (Reply ''Invalid secret_key. It must be a valid Base32 string (A-Z, 2-7, and = only).'',
            tbl) \<and>
         getotp (snd (addcode tbl (name # secret_key # rest))) [name] now = getotp tbl [name] now \<and>
         (lower name \<notin> fst ` set tbl \<longrightarrow>
            getotp (snd (addcode tbl (name # secret_key # rest))) [name] now =
              Reply (not_found_text (lower name)))"
  using assms by (simp add: addcode_invalid getotp_absent)

theorem addcode_invalid_no_write_witness:
  "\<not> is_valid_base32 (upper ''invalid-key!'') \<and>
   addcode [] [''svc'', ''invalid-key!''] =
     (Reply ''Invalid secret_key. It must be a valid Base32 string (A-Z, 2-7, and = only).'', []) \<and>
   lower ''svc'' \<notin> fst ` set ([] :: table) \<and>
   getotp (snd (addcode [] [''svc'', ''invalid-key!''])) [''svc''] 1700000000 =
     Reply (not_found_text ''svc'')"
proof -
  have h: "\<not> is_valid_base32 (upper ''invalid-key!'')"
    by (simp add: upper_bad_key invalid_bad_key)
  have a: "lower ''svc'' \<notin> fst ` set ([] :: table)"
    by simp
  from addcode_invalid_no_write [OF h, of "[]" "''svc''" "[]" 1700000000] a h
  show ?thesis unfolding lower_svc by blast
qed

text \<open>
  C7 as stated fails on a table that holds the name already: the rejected \<open>addcode\<close>
  leaves the row in place, and \<open>getotp\<close> of that name does not answer not found.
\<close>

theorem addcode_invalid_then_get_counterexample:
  "\<not> is_valid_base32 (upper ''invalid-key!'') \<and>
   addcode [(''svc'', ''JBSWY3DPEHPK3PXP'')] [''svc'', ''invalid-key!''] =
     (Reply ''Invalid secret_key. It must be a valid Base32 string (A-Z, 2-7, and = only).'',
      [(''svc'', ''JBSWY3DPEHPK3PXP'')]) \<and>
   getotp (snd (addcode [(''svc'', ''JBSWY3DPEHPK3PXP'')] [''svc'', ''invalid-key!'']))
     [''svc''] 1700000000 \<noteq> Reply (not_found_text ''svc'')"
proof -
  have bad: "\<not> is_valid_base32 (upper ''invalid-key!'')"
    by (simp add: upper_bad_key invalid_bad_key)
  have "sql_select_secret [(''svc'', ''JBSWY3DPEHPK3PXP'')] (lower ''svc'') = Some ''JBSWY3DPEHPK3PXP''"
    by (simp add: sql_select_secret_def lower_svc)
  then have "getotp [(''svc'', ''JBSWY3DPEHPK3PXP'')] [''svc''] 1700000000 \<noteq> Reply (not_found_text ''svc'')"
    by (rule getotp_present_found)
  with bad show ?thesis by (simp add: addcode_invalid)
qed

text \<open>
  C8. When the lowercased name is not in the table, \<open>deletecode\<close> replies not found and
  leaves the table as it was. When it is in the table, \<open>deletecode\<close> replies that the
  code was deleted, and \<open>getotp\<close> of that name on the table it leaves replies not found.
\<close>

theorem deletecode_not_found:
  "(lower name \<notin> fst ` set tbl \<longrightarrow>
      deletecode tbl (name # rest) = (Reply (not_found_text (lower name)), tbl)) \<and>
   (lower name \<in> fst ` set tbl \<longrightarrow>
      fst (deletecode tbl (name # rest)) =
        Reply (''OTP code for '' @ [QUOTE] @ lower name @ [QUOTE] @ '' deleted successfully.'') \<and>
      getotp (snd (deletecode tbl (name # rest))) (name # rest') now =
        Reply (not_found_text (lower name)))"
proof (intro conjI impI)
  assume "lower name \<notin> fst ` set tbl"
  then show "deletecode tbl (name # rest) = (Reply (not_found_text (lower name)), tbl)"
    by (simp add: deletecode_def Let_def sql_delete_absent)
next
  assume p: "lower name \<in> fst ` set tbl"
  obtain n tbl' where d: "sql_delete tbl (lower name) = (n, tbl')"
    by (cases "sql_delete tbl (lower name)")
  with sql_delete_present [OF p] have "n \<noteq> 0" by simp
  with d show "fst (deletecode tbl (name # rest)) =
      Reply (''OTP code for '' @ [QUOTE] @ lower name @ [QUOTE] @ '' deleted successfully.'')"
    by (simp add: deletecode_def Let_def)
  from d have "snd (deletecode tbl (name # rest)) = snd (sql_delete tbl (lower name))"
    by (simp add: deletecode_def Let_def)
  then show "getotp (snd (deletecode tbl (name # rest))) (name # rest') now =
      Reply (not_found_text (lower name))"
    by (simp add: getotp_absent sql_delete_gone)
qed

theorem deletecode_not_found_witness:
  "lower ''GitHub'' \<notin> fst ` set ([] :: table) \<and>
   deletecode [] [''GitHub''] = (Reply (not_found_text ''github''), []) \<and>
   lower ''GitHub'' \<in> fst ` set [(''github'', ''JBSWY3DPEHPK3PXP'')] \<and>
   fst (deletecode [(''github'', ''JBSWY3DPEHPK3PXP'')] [''GitHub'']) =
     Reply (''OTP code for '' @ [QUOTE] @ ''github'' @ [QUOTE] @ '' deleted successfully.'') \<and>
   getotp (snd (deletecode [(''github'', ''JBSWY3DPEHPK3PXP'')] [''GitHub''])) [''GitHub''] 1700000000 =
     Reply (not_found_text ''github'')"
proof -
  have a: "lower ''GitHub'' \<notin> fst ` set ([] :: table)"
    by simp
  have p: "lower ''GitHub'' \<in> fst ` set [(''github'', ''JBSWY3DPEHPK3PXP'')]"
    by (simp add: lower_GitHub)
  from a p
    deletecode_not_found [of "''GitHub''" "[]" "[]" "[]" 1700000000]
    deletecode_not_found [of "''GitHub''" "[(''github'', ''JBSWY3DPEHPK3PXP'')]" "[]" "[]" 1700000000]
  show ?thesis unfolding lower_GitHub by blast
qed

text \<open>
  C9. When the lowercased name is not in the table and the uppercased key passes
  validation, \<open>addcode\<close> confirms, and on the table it leaves the lookup of the name, in
  any case of its letters, finds the uppercased key, which is the secret \<open>getotp\<close> then
  computes the code from.
\<close>

theorem addcode_then_get:
  assumes "lower name \<notin> fst ` set tbl"
    and "is_valid_base32 (upper secret_key)"
    and "lower name' = lower name"
  shows "fst (addcode tbl (name # secret_key # rest)) =
           Reply (''OTP code for '' @ [QUOTE] @ lower name @ [QUOTE] @ '' added successfully.'') \<and>
         sql_select_secret (snd (addcode tbl (name # secret_key # rest))) (lower name') =
           Some (upper secret_key) \<and>
         getotp (snd (addcode tbl (name # secret_key # rest))) (name' # rest') now =
           (case totp_now (upper secret_key) now of
              Inl e \<Rightarrow> Raise e
            | Inr otp_code \<Rightarrow>
                Reply (''Your real-time OTP code for '' @ lower name @ '' is: '' @ otp_code))"
proof -
  have a: "addcode tbl (name # secret_key # rest) =
      (Reply (''OTP code for '' @ [QUOTE] @ lower name @ [QUOTE] @ '' added successfully.''),
       tbl @ [(lower name, upper secret_key)])"
    using assms by (simp add: addcode_absent)
  have s: "sql_select_secret (tbl @ [(lower name, upper secret_key)]) (lower name') =
      Some (upper secret_key)"
    using assms by (simp add: sql_select_secret_appended)
  have g: "getotp (tbl @ [(lower name, upper secret_key)]) (name' # rest') now =
      (case totp_now (upper secret_key) now of
         Inl e \<Rightarrow> Raise e
       | Inr otp_code \<Rightarrow>
           Reply (''Your real-time OTP code for '' @ lower name @ '' is: '' @ otp_code))"
    using getotp_present [OF s, of rest' now, unfolded assms(3)] .
  show ?thesis
    unfolding a fst_conv snd_conv using s g by blast
qed

theorem addcode_then_get_witness:
  "lower ''GitHub'' \<notin> fst ` set ([] :: table) \<and>
   is_valid_base32 (upper ''jbswy3dpehpk3pxp'') \<and>
   lower ''GITHUB'' = lower ''GitHub'' \<and>
   sql_select_secret (snd (addcode [] [''GitHub'', ''jbswy3dpehpk3pxp''])) (lower ''GITHUB'') =
     Some ''JBSWY3DPEHPK3PXP''"
proof -
  have a: "lower ''GitHub'' \<notin> fst ` set ([] :: table)"
    by simp
  have v: "is_valid_base32 (upper ''jbswy3dpehpk3pxp'')"
    by (simp add: upper_example_key valid_example_key)
  have l: "lower ''GITHUB'' = lower ''GitHub''"
    by (simp add: lower_GitHub lower_GITHUB)
  from addcode_then_get [OF a v l, of "[]" "[]" 0] a v l
  show ?thesis unfolding upper_example_key by blast
qed

text \<open>
  C10. In every table that commands lead to, every stored name is its own lowercasing;
  and every command does the same on two first arguments that differ only in case.
\<close>

theorem reachable_names_lowercase:
  assumes "reachable tbl"
  shows "(\<forall>r \<in> set tbl. lower (fst r) = fst r) \<and>
         (\<forall>cmd a b rest now. lower a = lower b \<longrightarrow>
            handle cmd tbl (a # rest) now = handle cmd tbl (b # rest) now)"
proof
  show "\<forall>r \<in> set tbl. lower (fst r) = fst r"
    using assms
  proof (induction rule: reachable.induct)
    case created
    show ?case by simp
  next
    case (command tbl cmd args now)
    show ?case
    proof
      fix r
      assume r: "r \<in> set (snd (handle cmd tbl args now))"
      show "lower (fst r) = fst r"
      proof (cases "r \<in> set tbl")
        case True
        with command.IH show ?thesis by blast
      next
        case False
        with r have "r = (lower (args ! 0), upper (args ! 1))"
          using handle_new_row [of r cmd tbl args now] by blast
        then show ?thesis by (simp add: lower_idem)
      qed
    qed
  qed
next
  show "\<forall>cmd a b rest now. lower a = lower b \<longrightarrow>
          handle cmd tbl (a # rest) now = handle cmd tbl (b # rest) now"
    using handle_first_arg by blast
qed

theorem reachable_names_lowercase_witness:
  "reachable [(''github'', ''JBSWY3DPEHPK3PXP'')] \<and>
   lower ''github'' = ''github'' \<and>
   lower ''GitHub'' = lower ''GITHUB'' \<and>
   handle DeleteCode [(''github'', ''JBSWY3DPEHPK3PXP'')] [''GitHub''] 0 =
     handle DeleteCode [(''github'', ''JBSWY3DPEHPK3PXP'')] [''GITHUB''] 0"
proof -
  have l: "lower ''GitHub'' = lower ''GITHUB''"
    by (simp add: lower_GitHub lower_GITHUB)
  note w = reachable_names_lowercase [OF reachable_example]
  from w have "lower (fst (''github'', ''JBSWY3DPEHPK3PXP'')) = fst (''github'', ''JBSWY3DPEHPK3PXP'')"
    by simp
  then have n: "lower ''github'' = ''github''"
    by simp
  from w l have h: "handle DeleteCode [(''github'', ''JBSWY3DPEHPK3PXP'')] [''GitHub''] 0 =
         handle DeleteCode [(''github'', ''JBSWY3DPEHPK3PXP'')] [''GITHUB''] 0"
    by blast
  from reachable_example n l h show ?thesis by blast
qed

section \<open>The engine\<close>

lemma length_be_bytes32: "length (be_bytes32 w) = 4"
  by (simp add: be_bytes32_def)

lemma length_sha1: "length (sha1 m) = 20"
  by (simp add: sha1_def length_be_bytes32 split: prod.split)

lemma length_hmac_sha1: "length (hmac_sha1 key msg) = 20"
  by (simp add: hmac_sha1_def Let_def length_sha1)

lemma length_be_bytes64: "length (be_bytes64 n) = 8"
  by (simp add: be_bytes64_def Let_def)

lemma low_nibble_le: "unat ((b :: byte) AND 0x0F) \<le> 15"
proof -
  have "b AND 0x0F \<le> 0x0F" by (rule word_and_le1)
  then have "unat (b AND 0x0F) \<le> unat (0x0F :: byte)" by (simp add: word_le_nat_alt)
  then show ?thesis by simp
qed

lemma byte_of_shift: "unat (ucast (drop_bit k (w :: 64 word)) :: byte) = unat w div 2 ^ k mod 256"
proof -
  have "unat (ucast (drop_bit k w) :: byte) = take_bit 8 (drop_bit k (unat w))"
    by (simp add: unsigned_ucast_eq unat_drop_bit_eq)
  also have "\<dots> = unat w div 2 ^ k mod 256"
    by (simp add: take_bit_eq_mod drop_bit_eq_div)
  finally show ?thesis .
qed

lemma byte_of_low: "unat (ucast (w :: 64 word) :: byte) = unat w mod 256"
  using byte_of_shift [of 0 w] by simp

lemma upt8: "[0..<8] = [0, 1, 2, 3, 4, 5, 6, 7]"
  by (simp add: upt_rec)

lemma be_bytes64_value:
  "foldl (\<lambda>acc b. 256 * acc + unat b) 0 (be_bytes64 n) = n mod 2 ^ 64"
proof -
  define x where "x = unat (of_nat n :: 64 word)"
  define a where "a k = x div 256 ^ k" for k
  define m where "m k = a k mod 256" for k
  have x: "x = n mod 2 ^ 64"
    by (simp add: x_def unat_of_nat)
  have "a (Suc k) = a k div 256" for k
    unfolding a_def power_Suc2 by (rule div_mult2_eq)
  then have step: "a k = m k + 256 * a (k + 1)" for k
    by (simp add: m_def)
  have s0: "a 0 = m 0 + 256 * a 1" using step [of 0] by simp
  have s1: "a 1 = m 1 + 256 * a 2" using step [of 1] by (simp add: numeral_2_eq_2)
  have s2: "a 2 = m 2 + 256 * a 3" using step [of 2] by simp
  have s3: "a 3 = m 3 + 256 * a 4" using step [of 3] by simp
  have s4: "a 4 = m 4 + 256 * a 5" using step [of 4] by simp
  have s5: "a 5 = m 5 + 256 * a 6" using step [of 5] by simp
  have s6: "a 6 = m 6 + 256 * a 7" using step [of 6] by simp
  have s7: "a 7 = m 7 + 256 * a 8" using step [of 7] by simp
  have a0: "a 0 = x"
    by (simp add: a_def)
  have a8: "a 8 = 0"
    using x by (simp add: a_def)
  have "map unat (be_bytes64 n) = [m 7, m 6, m 5, m 4, m 3, m 2, m 1, m 0]"
    unfolding x_def a_def m_def be_bytes64_def Let_def upt8
    by (simp add: byte_of_shift byte_of_low unat_drop_bit_eq drop_bit_eq_div [where ?'a = nat])
  moreover have "foldl (\<lambda>acc b. 256 * acc + unat b) 0 bs = foldl (\<lambda>acc b. 256 * acc + b) 0 (map unat bs)"
    for bs :: "byte list"
    by (simp add: foldl_map)
  ultimately have "foldl (\<lambda>acc b. 256 * acc + unat b) 0 (be_bytes64 n) =
      256 * (256 * (256 * (256 * (256 * (256 * (256 * m 7 + m 6) + m 5) + m 4) + m 3) + m 2) + m 1) + m 0"
    by simp
  also have "\<dots> = x"
    unfolding a0 [symmetric] s0 s1 s2 s3 s4 s5 s6 s7 a8 by simp
  finally show ?thesis using x by simp
qed

lemma shift_or_byte:
  assumes "unat (w :: u32) < 2 ^ 24"
  shows "unat (push_bit 8 w OR ucast (b :: byte)) = 256 * unat w + unat b"
proof -
  have "push_bit 8 w AND ucast b = 0"
    by (rule bit_word_eqI) (auto simp add: bit_simps dest: bit_imp_le_length)
  then have d: "push_bit 8 w + ucast b = push_bit 8 w OR ucast b"
    by (rule disjunctive_add_eq_or)
  have "unat (push_bit 8 w) = take_bit 32 (push_bit 8 (unat w))"
    by (simp add: unsigned_push_bit_eq)
  also have "\<dots> = 256 * unat w"
    using assms by (simp add: push_bit_eq_mult take_bit_eq_mod)
  finally have p: "unat (push_bit 8 w) = 256 * unat w" .
  have lt: "unat b < 256"
    using unsigned_less [of b, where ?'a = nat] by simp
  then have u: "unat (ucast b :: u32) = unat b"
    by (simp add: unsigned_ucast_eq take_bit_eq_mod)
  from lt assms have "unat (push_bit 8 w) + unat (ucast b :: u32) < 2 ^ LENGTH(32)"
    by (simp add: p u)
  then have "unat (push_bit 8 w + ucast b) = unat (push_bit 8 w) + unat (ucast b :: u32)"
    by (rule unat_add_lem [THEN iffD1])
  then show ?thesis by (simp add: d p u)
qed

lemma be_word32_value:
  "unat (be_word32 [b0, b1, b2, b3]) =
     256 * (256 * (256 * unat b0 + unat b1) + unat b2) + unat b3"
proof -
  have lt: "unat b < 256" for b :: byte
    using unsigned_less [of b, where ?'a = nat] by simp
  have w0: "unat (ucast b0 :: u32) = unat b0"
    using lt [of b0] by (simp add: unsigned_ucast_eq take_bit_eq_mod)
  define w1 :: u32 where "w1 = push_bit 8 (ucast b0) OR ucast b1"
  define w2 :: u32 where "w2 = push_bit 8 w1 OR ucast b2"
  have v1: "unat w1 = 256 * unat b0 + unat b1"
    unfolding w1_def using lt [of b0] by (subst shift_or_byte) (simp_all add: w0)
  have v2: "unat w2 = 256 * (256 * unat b0 + unat b1) + unat b2"
    unfolding w2_def using lt [of b0] lt [of b1] by (subst shift_or_byte) (simp_all add: v1)
  have "unat (push_bit 8 w2 OR ucast b3) = 256 * (256 * (256 * unat b0 + unat b1) + unat b2) + unat b3"
    using lt [of b0] lt [of b1] lt [of b2] by (subst shift_or_byte) (simp_all add: v2)
  then show ?thesis by (simp add: be_word32_def w2_def w1_def)
qed

lemma mask31_value: "unat ((w :: u32) AND 0x7FFFFFFF) = unat w mod 2 ^ 31"
proof -
  have "(0x7FFFFFFF :: u32) = mask 31"
    by (simp add: mask_eq_exp_minus_1)
  then have "w AND 0x7FFFFFFF = take_bit 31 w"
    by (simp add: take_bit_eq_mask)
  then have "unat (w AND 0x7FFFFFFF) = take_bit 31 (unat w)"
    by (simp only: unsigned_take_bit_eq)
  then show ?thesis
    by (simp only: take_bit_eq_mod)
qed

lemma take4:
  assumes "i + 4 \<le> length xs"
  shows "take 4 (drop i xs) = [xs ! i, xs ! (i + 1), xs ! (i + 2), xs ! (i + 3)]"
proof (rule nth_equalityI)
  show "length (take 4 (drop i xs)) = length [xs ! i, xs ! (i + 1), xs ! (i + 2), xs ! (i + 3)]"
    using assms by simp
next
  fix k
  assume "k < length (take 4 (drop i xs))"
  with assms have "k < 4" by simp
  then have "k = 0 \<or> k = 1 \<or> k = 2 \<or> k = 3" by arith
  with assms show "take 4 (drop i xs) ! k = [xs ! i, xs ! (i + 1), xs ! (i + 2), xs ! (i + 3)] ! k"
    by auto
qed

declare str_nat.simps [simp del]

lemma digit_char_is_digit: "d < 10 \<Longrightarrow> is_digit (digit_char d)"
  by (simp add: is_digit_def digit_char_def nth_mem [of d "''0123456789''", simplified])

lemma digit_char_value: "d < 10 \<Longrightarrow> index_of (digit_char d) ''0123456789'' = d"
proof -
  assume "d < 10"
  then have "d \<in> {0, 1, 2, 3, 4, 5, 6, 7, 8, 9}" by auto
  then show ?thesis by (auto simp add: digit_char_def)
qed

lemma str_nat_digits: "list_all is_digit (str_nat n)"
proof (induction n rule: str_nat.induct)
  case (1 n)
  show ?case
  proof (cases "n < 10")
    case True
    then show ?thesis by (simp add: str_nat.simps [of n] digit_char_is_digit)
  next
    case False
    with "1" show ?thesis by (simp add: str_nat.simps [of n] digit_char_is_digit)
  qed
qed

lemma nat_of_digits_snoc: "nat_of_digits (s @ [c]) = 10 * nat_of_digits s + index_of c ''0123456789''"
  by (simp add: nat_of_digits_def)

lemma nat_of_digits_nil: "nat_of_digits [] = 0"
  by (simp add: nat_of_digits_def)

lemma nat_of_digits_str_nat: "nat_of_digits (str_nat n) = n"
proof (induction n rule: str_nat.induct)
  case (1 n)
  show ?case
  proof (cases "n < 10")
    case True
    then show ?thesis
      using nat_of_digits_snoc [of "[]" "digit_char n"]
      by (simp add: str_nat.simps [of n] nat_of_digits_nil digit_char_value del: index_of.simps)
  next
    case False
    with "1" show ?thesis
      by (simp add: str_nat.simps [of n] nat_of_digits_snoc digit_char_value del: index_of.simps)
  qed
qed

lemma length_str_nat: "n < 10 ^ Suc k \<Longrightarrow> length (str_nat n) \<le> Suc k"
proof (induction k arbitrary: n)
  case 0
  then show ?case by (simp add: str_nat.simps [of n])
next
  case (Suc k)
  show ?case
  proof (cases "n < 10")
    case True
    then show ?thesis by (simp add: str_nat.simps [of n])
  next
    case False
    from Suc.prems have "n div 10 < 10 ^ Suc k" by (simp add: less_mult_imp_div_less mult.commute)
    then have "length (str_nat (n div 10)) \<le> Suc k" by (rule Suc.IH)
    with False show ?thesis by (simp add: str_nat.simps [of n])
  qed
qed

lemma nat_of_digits_zeros: "nat_of_digits (replicate k (CHR ''0'') @ s) = nat_of_digits s"
proof -
  have "foldl (\<lambda>acc c. 10 * acc + index_of c ''0123456789'') 0 (replicate k (CHR ''0'')) = 0"
    by (induction k) simp_all
  then show ?thesis by (simp add: nat_of_digits_def)
qed

lemma zfill_code:
  assumes "n < 10 ^ 6"
  shows "length (zfill 6 (str_nat n)) = 6" and "list_all is_digit (zfill 6 (str_nat n))"
    and "nat_of_digits (zfill 6 (str_nat n)) = n"
proof -
  from assms have "n < 10 ^ Suc 5" by simp
  then have "length (str_nat n) \<le> Suc 5" by (rule length_str_nat)
  then show "length (zfill 6 (str_nat n)) = 6" by (simp add: zfill_def)
  have "is_digit (CHR ''0'')" by (simp add: is_digit_def)
  then show "list_all is_digit (zfill 6 (str_nat n))"
    using str_nat_digits [of n] by (auto simp add: zfill_def list_all_iff)
  show "nat_of_digits (zfill 6 (str_nat n)) = n"
    by (simp add: zfill_def nat_of_digits_zeros nat_of_digits_str_nat)
qed

lemma counter_bytes_window: "t1 div 30 = t2 div 30 \<Longrightarrow> counter_bytes t1 = counter_bytes t2"
  by (simp add: counter_bytes_def)

lemma valid_first_char: "is_valid_base32 s \<Longrightarrow> \<exists>c cs. s = c # cs \<and> is_base32_char c"
  by (cases s) (simp_all add: is_valid_base32_def)

lemma strip_padding_Nil_iff: "strip_padding s = [] \<longleftrightarrow> (\<forall>c \<in> set s. c = CHR ''='')"
  by (auto simp add: strip_padding_def dropWhile_eq_Nil_conv)

lemma length_strip_padding_le: "length (strip_padding s) \<le> length s"
  by (metis length_dropWhile_le length_rev strip_padding_def)

lemma first_chunk:
  "8 \<le> length xs \<Longrightarrow> filter (\<lambda>g. length g = 8) (chunks 8 xs) \<noteq> []"
  by (cases xs) simp_all

lemma length_bits_of: "length (bits_of w n) = w"
  by (simp add: bits_of_def)

lemma length_base32_bits:
  "length (concat (map (\<lambda>c. bits_of 5 (index_of c base32_class)) body)) = 5 * length body"
  by (induction body) (simp_all add: length_bits_of)

lemma decode_nonempty:
  assumes "decode s = Inr key" and "strip_padding s \<noteq> []"
  shows "key \<noteq> []"
proof -
  define body where "body = strip_padding s"
  define padchars where "padchars = length s - length body"
  from assms(1) have m: "length s mod 8 = 0" and p: "padchars \<in> {0, 1, 3, 4, 6}"
    and k: "key = map byte_of_bits (filter (\<lambda>g. length g = 8)
              (chunks 8 (concat (map (\<lambda>c. bits_of 5 (index_of c base32_class)) body))))"
    by (auto simp add: decode_def Let_def body_def padchars_def split: if_splits)
  have le: "length body \<le> length s"
    unfolding body_def by (rule length_strip_padding_le)
  from assms(2) have "1 \<le> length body"
    by (simp add: body_def Suc_le_eq)
  moreover have "length body \<noteq> 1"
  proof
    assume "length body = 1"
    with le have "length s = padchars + 1" by (simp add: padchars_def)
    moreover from p have "padchars = 0 \<or> padchars = 1 \<or> padchars = 3 \<or> padchars = 4 \<or> padchars = 6"
      by simp
    ultimately show False using m by presburger
  qed
  ultimately have "2 \<le> length body" by simp
  then have "8 \<le> length (concat (map (\<lambda>c. bits_of 5 (index_of c base32_class)) body))"
    by (simp add: length_base32_bits)
  then show ?thesis unfolding k by (simp add: first_chunk)
qed

lemma valid_secret_nonempty:
  assumes "is_valid_base32 secret" and "byte_secret secret = Inr key"
  shows "key \<noteq> []"
proof -
  define padded where
    "padded = upper secret @ replicate ((8 - length secret mod 8) mod 8) (CHR ''='')"
  from assms(1) obtain c cs where c: "secret = c # cs" "is_base32_char c"
    using valid_first_char by blast
  from c(2) have ne: "c \<noteq> CHR ''=''"
    using not_base32_pad by blast
  have u: "upper secret = secret"
    by (rule valid_upper [OF assms(1)])
  from c(1) have "c \<in> set secret"
    by simp
  then have "c \<in> set padded"
    unfolding padded_def u by simp
  with ne have "\<not> (\<forall>x \<in> set padded. x = CHR ''='')"
    by blast
  then have "strip_padding padded \<noteq> []"
    unfolding strip_padding_Nil_iff .
  moreover from assms(2) have "decode padded = Inr key"
    unfolding byte_secret_def padded_def .
  ultimately show ?thesis
    by (rule decode_nonempty [rotated])
qed

lemma byte_secret_example:
  "byte_secret ''JBSWY3DPEHPK3PXP'' = Inr [72, 101, 108, 108, 111, 33, 222, 173, 190, 239]"
  by code_simp

lemma byte_secret_A: "byte_secret ''A'' = Inl DecodeError"
  by code_simp

lemma byte_secret_ABC: "byte_secret ''ABC'' = Inl DecodeError"
  by code_simp

lemma valid_A: "is_valid_base32 ''A''"
  by (simp add: is_valid_base32_def is_base32_char_def base32_class_def match_end_def)

lemma upper_A: "upper ''A'' = ''A''"
  by (simp add: upper_def upper_char_def ascii_uppercase_def ascii_lowercase_def)

lemma reachable_undecodable: "reachable [(''svc'', ''A'')]"
proof -
  have "snd (handle AddCode [] [''svc'', ''A''] 0) = [(''svc'', ''A'')]"
    by (simp add: addcode_absent upper_A valid_A lower_svc)
  then show ?thesis
    using reachable.command [OF reachable.created, of AddCode "[''svc'', ''A'']" 0]
    by simp
qed

lemma totp_now_decoded:
  "byte_secret secret = Inr key \<Longrightarrow> key \<noteq> [] \<Longrightarrow>
     totp_now secret now =
       Inr (zfill 6 (str_nat (truncate31 (hmac_sha1 key (be_bytes64 (now div 30))) mod 10 ^ 6)))"
  by (simp add: totp_now_def generate_def counter_bytes_def)

lemma totp_now_undecoded: "byte_secret secret = Inl e \<Longrightarrow> totp_now secret now = Inl e"
  by (simp add: totp_now_def)

text \<open>
  C1. For a secret stored in a table that commands lead to, when its decoding
  succeeds, \<open>getotp\<close> replies with the code of the reference computation at the clock
  reading: the counter is 8 bytes whose big-endian value is the reading divided by 30
  (its low 64 bits), the digest is HMAC-SHA1 of the counter under the decoded secret and
  has 20 bytes, the offset is the low 4 bits of its last byte and leaves 4 bytes to
  read, the big-endian value of these 4 bytes with the top bit masked is a 31-bit
  number, and the code is exactly 6 decimal digits whose value is that number mod
  \<open>10^6\<close>.
\<close>

theorem getotp_reference:
  assumes "reachable tbl"
    and "sql_select_secret tbl (lower name) = Some secret"
    and "byte_secret secret = Inr key"
  shows "let counter = be_bytes64 (now div 30);
             digest = hmac_sha1 key counter;
             offset = unat (digest ! 19 AND 0x0F);
             p = unat (be_word32 (take 4 (drop offset digest)) AND 0x7FFFFFFF);
             code = zfill 6 (str_nat (p mod 10 ^ 6))
         in getotp tbl (name # rest) now =
              Reply (''Your real-time OTP code for '' @ lower name @ '' is: '' @ code) \<and>
            length counter = 8 \<and>
            foldl (\<lambda>acc b. 256 * acc + unat b) 0 counter = now div 30 mod 2 ^ 64 \<and>
            length digest = 20 \<and> offset + 4 \<le> length digest \<and>
            p = (256 * (256 * (256 * unat (digest ! offset) + unat (digest ! (offset + 1))) +
                   unat (digest ! (offset + 2))) + unat (digest ! (offset + 3))) mod 2 ^ 31 \<and>
            length code = 6 \<and> list_all is_digit code \<and> nat_of_digits code = p mod 10 ^ 6"
proof -
  define counter where "counter = be_bytes64 (now div 30)"
  define digest where "digest = hmac_sha1 key counter"
  define offset where "offset = unat (digest ! 19 AND 0x0F)"
  define p where "p = unat (be_word32 (take 4 (drop offset digest)) AND 0x7FFFFFFF)"
  define code where "code = zfill 6 (str_nat (p mod 10 ^ 6))"
  have t: "truncate31 digest = p"
    by (simp add: truncate31_def p_def offset_def Let_def)
  have "is_valid_base32 secret"
    using reachable_row_valid [OF assms(1) sql_select_secret_row [OF assms(2)]] by simp
  then have "key \<noteq> []"
    using assms(3) by (rule valid_secret_nonempty)
  with assms(3) have "totp_now secret now = Inr code"
    by (simp add: totp_now_decoded code_def t [symmetric] digest_def counter_def)
  then have g: "getotp tbl (name # rest) now =
      Reply (''Your real-time OTP code for '' @ lower name @ '' is: '' @ code)"
    using getotp_present [OF assms(2), of rest now] by simp
  have len: "length digest = 20"
    by (simp add: digest_def length_hmac_sha1)
  have off: "offset + 4 \<le> length digest"
    using low_nibble_le [of "digest ! 19"] by (simp add: len offset_def)
  have cnt: "length counter = 8"
    "foldl (\<lambda>acc b. 256 * acc + unat b) 0 counter = now div 30 mod 2 ^ 64"
    unfolding counter_def by (rule length_be_bytes64, rule be_bytes64_value)
  have p31: "p = (256 * (256 * (256 * unat (digest ! offset) + unat (digest ! (offset + 1))) +
      unat (digest ! (offset + 2))) + unat (digest ! (offset + 3))) mod 2 ^ 31"
    unfolding p_def mask31_value take4 [OF off] be_word32_value ..
  have "p mod 10 ^ 6 < 10 ^ 6"
    by simp
  then have c: "length code = 6" "list_all is_digit code" "nat_of_digits code = p mod 10 ^ 6"
    unfolding code_def by (rule zfill_code)+
  from g cnt len off p31 c show ?thesis
    unfolding Let_def counter_def [symmetric] digest_def [symmetric] offset_def [symmetric]
      p_def [symmetric] code_def [symmetric]
    by blast
qed

theorem getotp_reference_witness:
  "reachable [(''github'', ''JBSWY3DPEHPK3PXP'')] \<and>
   sql_select_secret [(''github'', ''JBSWY3DPEHPK3PXP'')] (lower ''GitHub'') = Some ''JBSWY3DPEHPK3PXP'' \<and>
   byte_secret ''JBSWY3DPEHPK3PXP'' = Inr [72, 101, 108, 108, 111, 33, 222, 173, 190, 239] \<and>
   (let counter = be_bytes64 (1700000000 div 30);
        digest = hmac_sha1 [72, 101, 108, 108, 111, 33, 222, 173, 190, 239] counter;
        offset = unat (digest ! 19 AND 0x0F);
        p = unat (be_word32 (take 4 (drop offset digest)) AND 0x7FFFFFFF);
        code = zfill 6 (str_nat (p mod 10 ^ 6))
    in getotp [(''github'', ''JBSWY3DPEHPK3PXP'')] [''GitHub''] 1700000000 =
         Reply (''Your real-time OTP code for '' @ lower ''GitHub'' @ '' is: '' @ code) \<and>
       length code = 6 \<and> list_all is_digit code \<and> nat_of_digits code = p mod 10 ^ 6)"
proof -
  have s: "sql_select_secret [(''github'', ''JBSWY3DPEHPK3PXP'')] (lower ''GitHub'') =
      Some ''JBSWY3DPEHPK3PXP''"
    by (simp add: sql_select_secret_def lower_GitHub)
  from getotp_reference [OF reachable_example s byte_secret_example,
      where rest = "[]" and now = 1700000000]
    reachable_example s byte_secret_example
  show ?thesis unfolding Let_def by blast
qed

text \<open>
  C4 (as amended). For a stored secret whose decoding fails, \<open>getotp\<close> sends no reply:
  the error of the decoder leaves the handler as an exception, and the table is as it
  was.
\<close>

theorem getotp_decode_failure:
  assumes "sql_select_secret tbl (lower name) = Some secret"
    and "byte_secret secret = Inl e"
  shows "handle GetOtp tbl (name # rest) now = (Raise e, tbl)"
  using getotp_present [OF assms(1), of rest now] totp_now_undecoded [OF assms(2), of now]
  by simp

theorem getotp_decode_failure_witness:
  "sql_select_secret [(''abc'', ''ABC'')] (lower ''abc'') = Some ''ABC'' \<and>
   byte_secret ''ABC'' = Inl DecodeError \<and>
   handle GetOtp [(''abc'', ''ABC'')] [''abc''] 1700000000 = (Raise DecodeError, [(''abc'', ''ABC'')])"
proof -
  have l: "lower ''abc'' = ''abc''"
    by (simp add: lower_def lower_char_def ascii_uppercase_def ascii_lowercase_def)
  have s: "sql_select_secret [(''abc'', ''ABC'')] (lower ''abc'') = Some ''ABC''"
    by (simp add: sql_select_secret_def l)
  from getotp_decode_failure [OF s byte_secret_ABC, where rest = "[]" and now = 1700000000]
    s byte_secret_ABC
  show ?thesis by blast
qed

text \<open>
  C4 as stated fails on the secret \<open>A\<close>, which passes the validation of \<open>addcode\<close>
  and cannot be decoded: \<open>getotp\<close> has no handler around the library call, so the
  outcome is the exception and not a reply.
\<close>

theorem getotp_undecodable_counterexample:
  "reachable [(''svc'', ''A'')] \<and>
   byte_secret ''A'' = Inl DecodeError \<and>
   getotp [(''svc'', ''A'')] [''svc''] 1700000000 = Raise DecodeError"
proof -
  have s: "sql_select_secret [(''svc'', ''A'')] (lower ''svc'') = Some ''A''"
    by (simp add: sql_select_secret_def lower_svc)
  have "getotp [(''svc'', ''A'')] [''svc''] 1700000000 = Raise DecodeError"
    using getotp_present [OF s, of "[]" 1700000000] totp_now_undecoded [OF byte_secret_A, of 1700000000]
    by simp
  with reachable_undecodable byte_secret_A show ?thesis by blast
qed

text \<open>
  C5. Two clock readings in the same window of 30 seconds give the same code for the
  same secret bytes, the same result of the library call for the same stored text, and
  the same outcome of \<open>getotp\<close>.
\<close>

theorem generate_same_window:
  assumes "t1 div 30 = t2 div 30"
  shows "generate secret_bytes t1 = generate secret_bytes t2 \<and>
         totp_now secret t1 = totp_now secret t2 \<and>
         getotp tbl args t1 = getotp tbl args t2"
proof -
  have g: "generate b t1 = generate b t2" for b
    by (simp add: generate_def counter_bytes_window [OF assms])
  then have t: "totp_now s t1 = totp_now s t2" for s
    by (simp add: totp_now_def split: sum.split)
  then have "getotp tbl args t1 = getotp tbl args t2"
    by (simp add: getotp_def Let_def split: option.split)
  with g t show ?thesis by blast
qed

theorem generate_same_window_witness:
  "(1700000000 :: nat) div 30 = 1700000009 div 30 \<and>
   generate [72, 101, 108, 108, 111, 33, 222, 173, 190, 239] 1700000000 =
     generate [72, 101, 108, 108, 111, 33, 222, 173, 190, 239] 1700000009 \<and>
   getotp [(''github'', ''JBSWY3DPEHPK3PXP'')] [''GitHub''] 1700000000 =
     getotp [(''github'', ''JBSWY3DPEHPK3PXP'')] [''GitHub''] 1700000009"
proof -
  have w: "(1700000000 :: nat) div 30 = 1700000009 div 30"
    by simp
  from generate_same_window [OF w] w show ?thesis by blast
qed

end
